theory Spec2Isabelle
  imports Main "HOL-Library.Sublist"
begin

section \<open>The SWETA service worker (service-worker.js)\<close>

text \<open>
  A shallow embedding of \<^verbatim>\<open>src/service-worker.js\<close>: the reminder timetable of
  \<^verbatim>\<open>checkScheduledMessages\<close>, the \<^verbatim>\<open>activate\<close> handler that deletes old
  caches, and the \<^verbatim>\<open>fetch\<close> handler with its helper \<^verbatim>\<open>fetchAndUpdate\<close>.
  The platform objects the worker talks to (Cache Storage, the network, the clock) are
  explicit arguments and results of the functions below.
\<close>

subsection \<open>Reminder timetable: \<^verbatim>\<open>checkScheduledMessages\<close> (lines 245-282)\<close>

text \<open>
  The three message texts. A \<^typ>\<open>string\<close> is a list of bytes; the symbol that ends
  each text in the source is written as its UTF-8 bytes.
\<close>

definition weekly_message :: string where
  "weekly_message =
     ''Happy Sunday! Time for your weekly check-in! '' @ [CHR 0xF0, CHR 0x9F, CHR 0x8C, CHR 0x9F]"

definition morning_message :: string where
  "morning_message =
     ''Good morning! Time to log your morning activities! ''
       @ [CHR 0xE2, CHR 0x98, CHR 0x80, CHR 0xEF, CHR 0xB8, CHR 0x8F]"

definition hourly_message :: string where
  "hourly_message =
     ''Time to log what you did in the last hour! '' @ [CHR 0xE2, CHR 0x8F, CHR 0xB0]"

text \<open>
  The function reads the clock (\<^verbatim>\<open>getDay\<close>, \<^verbatim>\<open>getHours\<close>, \<^verbatim>\<open>getMinutes\<close>); the
  model takes the three readings as arguments. The two local variables
  \<^verbatim>\<open>shouldNotify\<close> and \<^verbatim>\<open>message\<close> start as \<^verbatim>\<open>false\<close> and the empty string and
  are assigned together in the branches of the \<^verbatim>\<open>if\<close> / \<^verbatim>\<open>else if\<close> chain; the
  third branch has an inner \<^verbatim>\<open>if\<close> without \<^verbatim>\<open>else\<close>. The result is the body of the
  notification shown by \<^verbatim>\<open>showNotification\<close>, or \<open>None\<close> when none is shown.
\<close>

definition schedule_vars :: "int \<Rightarrow> int \<Rightarrow> int \<Rightarrow> bool \<times> string" where
  "schedule_vars day hours minutes =
     (if day = 0 \<and> hours = 12 \<and> minutes = 0 then (True, weekly_message)
      else if day \<noteq> 0 \<and> hours = 8 \<and> minutes = 0 then (True, morning_message)
      else if day \<noteq> 0 \<and> minutes = 30 then
        (if hours = 8 \<or> (hours \<ge> 9 \<and> hours \<le> 21) then (True, hourly_message)
         else (False, []))
      else (False, []))"

definition checkScheduledMessages :: "int \<Rightarrow> int \<Rightarrow> int \<Rightarrow> string option" where
  "checkScheduledMessages day hours minutes =
     (case schedule_vars day hours minutes of
        (shouldNotify, message) \<Rightarrow> if shouldNotify then Some message else None)"

subsection \<open>String tests of the source\<close>

fun startsWith :: "string \<Rightarrow> string \<Rightarrow> bool" where
  "startsWith s [] = True"
| "startsWith [] (p # ps) = False"
| "startsWith (c # cs) (p # ps) = (c = p \<and> startsWith cs ps)"

fun includes_str :: "string \<Rightarrow> string \<Rightarrow> bool" where
  "includes_str [] p = startsWith [] p"
| "includes_str (c # cs) p = (startsWith (c # cs) p \<or> includes_str cs p)"

subsection \<open>Platform values: promises, responses, requests\<close>

text \<open>
  A promise is modelled by its state: fulfilled, rejected, or \<open>Pending\<close> when it has
  not settled. \<^verbatim>\<open>fetch\<close> settles with a response or rejects; the source also guards
  against a falsy value (\<^verbatim>\<open>!response\<close>, \<^verbatim>\<open>response &&\<close>), so the fulfilment
  value is a \<^typ>\<open>'a option\<close>, with \<open>None\<close> for \<^verbatim>\<open>undefined\<close>. A handler that
  waits for a pending promise has a pending result.
\<close>

datatype 'a promise = Fulfilled 'a | Rejected | Pending

datatype response_type = Basic | Cors | Default | Error | Opaque | Opaqueredirect

type_synonym header_list = "(string \<times> string) list"

record response =
  body :: string
  status :: nat
  statusText :: string
  headers :: header_list
  type :: response_type

text \<open>
  \<^verbatim>\<open>new URL(request.url)\<close> is the platform's parser; the model takes its result, with
  the two components the handler reads. The serialised URL \<^verbatim>\<open>href\<close> carries the
  fragment, if the request has one.
\<close>

record URL =
  href :: string
  origin :: string

text \<open>
  The handler reads the URL and the destination of a request; the platform's cache also
  reads its method and its headers (\<^verbatim>\<open>request.headers\<close>).
\<close>

record request =
  url :: URL
  "method" :: string
  destination :: string
  request_headers :: header_list

text \<open>
  The network, as seen by one run of the handler. Every path of the handler calls
  \<^verbatim>\<open>fetch(request)\<close> at most once, so a function from the request to the state of
  the promise describes it.
\<close>

type_synonym network = "request \<Rightarrow> response option promise"

subsection \<open>Header lists\<close>

text \<open>
  Header names are compared without regard to the case of ASCII letters. The value of a
  name in a header list is the values of all headers of that name, in order, joined by
  a comma and a space; there is none when no header has the name.
\<close>

definition to_lower :: "char \<Rightarrow> char" where
  "to_lower c =
     (case map_of (zip ''ABCDEFGHIJKLMNOPQRSTUVWXYZ'' ''abcdefghijklmnopqrstuvwxyz'') c of
        Some l \<Rightarrow> l
      | None \<Rightarrow> c)"

definition same_name :: "string \<Rightarrow> string \<Rightarrow> bool" where
  "same_name a b \<longleftrightarrow> map to_lower a = map to_lower b"

fun join_values :: "string list \<Rightarrow> string" where
  "join_values [] = []"
| "join_values [v] = v"
| "join_values (v # w # vs) = v @ '', '' @ join_values (w # vs)"

definition header_get :: "header_list \<Rightarrow> string \<Rightarrow> string option" where
  "header_get hs name =
     (case map snd (filter (\<lambda>(n, v). same_name n name) hs) of
        [] \<Rightarrow> None
      | v # vs \<Rightarrow> Some (join_values (v # vs)))"

text \<open>
  The field values of the \<^verbatim>\<open>Vary\<close> header of a response: its value split at the
  commas, each part without the spaces and tabs around it.
\<close>

fun split_on :: "char \<Rightarrow> string \<Rightarrow> string list" where
  "split_on d [] = [[]]"
| "split_on d (c # cs) =
     (if c = d then [] # split_on d cs
      else (case split_on d cs of
              [] \<Rightarrow> [[c]]
            | w # ws \<Rightarrow> (c # w) # ws))"

definition is_space :: "char \<Rightarrow> bool" where
  "is_space c \<longleftrightarrow> c = CHR '' '' \<or> c = CHR 0x09"

definition trim :: "string \<Rightarrow> string" where
  "trim s = rev (dropWhile is_space (rev (dropWhile is_space s)))"

definition vary_fields :: "response \<Rightarrow> string list" where
  "vary_fields response =
     (case header_get (headers response) ''Vary'' of
        None \<Rightarrow> []
      | Some v \<Rightarrow> map trim (split_on (CHR '','') v))"

subsection \<open>Cache Storage\<close>

text \<open>
  A cache holds pairs of a request and its response, in the order they were put; Cache
  Storage holds named caches in the order of their creation, which is the order
  \<^verbatim>\<open>caches.keys()\<close> lists them and \<^verbatim>\<open>caches.match\<close> searches them. A cloned
  response is the same value.

  A request matches a cached pair when the cached request is a \<^verbatim>\<open>GET\<close>, the two
  URLs are equal up to their fragments, and, for every field the \<^verbatim>\<open>Vary\<close> header of
  the cached response lists, the field is not \<^verbatim>\<open>*\<close> and the two requests carry the
  same value for it.
\<close>

type_synonym cache = "(request \<times> response) list"

type_synonym cache_storage = "(string \<times> cache) list"

definition exclude_fragment :: "string \<Rightarrow> string" where
  "exclude_fragment u = takeWhile (\<lambda>c. c \<noteq> CHR ''#'') u"

definition request_matches_cached_item :: "request \<Rightarrow> request \<Rightarrow> response \<Rightarrow> bool" where
  "request_matches_cached_item requestQuery request response \<longleftrightarrow>
     method request = ''GET''
     \<and> exclude_fragment (href (url requestQuery)) = exclude_fragment (href (url request))
     \<and> list_all
         (\<lambda>fieldValue.
            fieldValue \<noteq> ''*''
            \<and> header_get (request_headers request) fieldValue
                = header_get (request_headers requestQuery) fieldValue)
         (vary_fields response)"

text \<open>The pairs of a cache that a request matches, in order.\<close>

definition query_cache :: "cache \<Rightarrow> request \<Rightarrow> cache" where
  "query_cache c requestQuery =
     filter (\<lambda>(request, response). request_matches_cached_item requestQuery request response) c"

text \<open>
  \<^verbatim>\<open>cache.match\<close> finds nothing for a request that is not a \<^verbatim>\<open>GET\<close>, and
  otherwise the response of the first pair the request matches.
\<close>

definition cache_match :: "cache \<Rightarrow> request \<Rightarrow> response option" where
  "cache_match c requestQuery =
     (if method requestQuery = ''GET''
      then (case query_cache c requestQuery of
              [] \<Rightarrow> None
            | (request, response) # rest \<Rightarrow> Some response)
      else None)"

fun caches_match :: "cache_storage \<Rightarrow> request \<Rightarrow> response option" where
  "caches_match [] requestQuery = None"
| "caches_match ((n, c) # rest) requestQuery =
     (case cache_match c requestQuery of
        Some r \<Rightarrow> Some r
      | None \<Rightarrow> caches_match rest requestQuery)"

definition caches_keys :: "cache_storage \<Rightarrow> string list" where
  "caches_keys s = map fst s"

definition caches_open :: "cache_storage \<Rightarrow> string \<Rightarrow> cache_storage" where
  "caches_open s n = (if n \<in> set (caches_keys s) then s else s @ [(n, [])])"

definition caches_delete :: "cache_storage \<Rightarrow> string \<Rightarrow> cache_storage" where
  "caches_delete s n = filter (\<lambda>(n', c). n' \<noteq> n) s"

text \<open>
  \<^verbatim>\<open>cache.put\<close> rejects a request that is not a \<^verbatim>\<open>GET\<close>, a response whose
  \<^verbatim>\<open>Vary\<close> header lists \<^verbatim>\<open>*\<close> and a response of status 206, and then leaves the
  cache as it is. Otherwise it removes the pairs that the request matches and appends
  the new pair. It also rejects a URL that is not \<^verbatim>\<open>http\<close> or \<^verbatim>\<open>https\<close>, and a
  response whose body has been read; neither occurs here, since a \<^verbatim>\<open>fetch\<close> event
  carries an \<^verbatim>\<open>http\<close> or \<^verbatim>\<open>https\<close> request and the worker puts a clone that
  nobody reads. The storage is taken to have room, so that a \<^verbatim>\<open>put\<close> that is
  accepted is carried out.
\<close>

definition put_accepts :: "request \<Rightarrow> response \<Rightarrow> bool" where
  "put_accepts request response \<longleftrightarrow>
     method request = ''GET''
     \<and> ''*'' \<notin> set (vary_fields response)
     \<and> status response \<noteq> 206"

definition cache_put :: "cache \<Rightarrow> request \<Rightarrow> response \<Rightarrow> cache" where
  "cache_put c request response =
     (if put_accepts request response
      then filter (\<lambda>(q, r). \<not> request_matches_cached_item request q r) c @ [(request, response)]
      else c)"

text \<open>\<^verbatim>\<open>cache.put\<close> on the cache that \<^verbatim>\<open>caches.open(n)\<close> returned.\<close>

definition caches_put :: "cache_storage \<Rightarrow> string \<Rightarrow> request \<Rightarrow> response \<Rightarrow> cache_storage" where
  "caches_put s n request response =
     map (\<lambda>(n', c). if n' = n then (n', cache_put c request response) else (n', c)) s"

text \<open>
  The pairs that a request matches in the cache of a given name, every response stored
  anywhere, and the caches that \<^verbatim>\<open>caches.match\<close> searches before the one of a given
  name.
\<close>

definition partition_matches :: "cache_storage \<Rightarrow> string \<Rightarrow> request \<Rightarrow> cache option" where
  "partition_matches s n requestQuery = map_option (\<lambda>c. query_cache c requestQuery) (map_of s n)"

definition stored :: "cache_storage \<Rightarrow> response set" where
  "stored s = set (concat (map (\<lambda>(n, c). map snd c) s))"

definition caches_before :: "cache_storage \<Rightarrow> string \<Rightarrow> cache_storage" where
  "caches_before s n = takeWhile (\<lambda>(n', c). n' \<noteq> n) s"

subsection \<open>Constants of the worker (lines 4-6)\<close>

definition CACHE_NAME :: string where
  "CACHE_NAME = ''sweta-v1.0.0''"

definition STATIC_CACHE :: string where
  "STATIC_CACHE = ''sweta-static-v1.0.0''"

definition DYNAMIC_CACHE :: string where
  "DYNAMIC_CACHE = ''sweta-dynamic-v1.0.0''"

subsection \<open>The \<^verbatim>\<open>activate\<close> handler (lines 36-59)\<close>

text \<open>
  The names listed by \<^verbatim>\<open>caches.keys()\<close> are filtered and each remaining name is
  deleted; the result is Cache Storage once every deletion has settled.
\<close>

text \<open>The test of the \<^verbatim>\<open>filter\<close> callback (lines 43-48).\<close>

definition is_old_cache :: "string \<Rightarrow> bool" where
  "is_old_cache cacheName \<longleftrightarrow>
     startsWith cacheName ''sweta-'' \<and> cacheName \<noteq> STATIC_CACHE \<and> cacheName \<noteq> DYNAMIC_CACHE"

definition activate :: "cache_storage \<Rightarrow> cache_storage" where
  "activate s = foldl caches_delete s (filter is_old_cache (caches_keys s))"

subsection \<open>The \<^verbatim>\<open>fetch\<close> handler (lines 62-133)\<close>

text \<open>
  What the worker knows of its own location: \<^verbatim>\<open>location.origin\<close>, and the request
  that \<^verbatim>\<open>caches.match('./index.html')\<close> builds from the relative URL: a
  \<^verbatim>\<open>GET\<close> of the URL resolved against the worker's, with no headers.
\<close>

record scope =
  location_origin :: string
  index_html :: request

text \<open>
  The calls a run makes on Cache Storage and on the network, in the order they are
  issued: \<^verbatim>\<open>caches.match\<close>, \<^verbatim>\<open>caches.open\<close>, \<^verbatim>\<open>cache.put\<close> (with the name
  of the opened cache) and \<^verbatim>\<open>fetch\<close>.
\<close>

datatype effect =
    Fetch request
  | CachesMatch request
  | CachesOpen string
  | CachePut string request response

text \<open>
  The handler either returns without calling \<^verbatim>\<open>event.respondWith\<close>, leaving the
  request to the browser, or passes a promise to it. A promise fulfilled with
  \<open>None\<close> hands \<^verbatim>\<open>undefined\<close> to \<^verbatim>\<open>respondWith\<close>, which is no response.
\<close>

datatype outcome = NotHandled | RespondWith "response option promise"

text \<open>
  A run yields the outcome, Cache Storage once the promise chains started by the run
  have settled as far as they do, and the calls made.
\<close>

record result =
  outcome :: outcome
  caches :: cache_storage
  effects :: "effect list"

text \<open>The response built in the \<^verbatim>\<open>catch\<close> branch (lines 110-116).\<close>

definition offline_response :: response where
  "offline_response =
     \<lparr>body = ''Offline - Content not available'',
      status = 503,
      statusText = ''Service Unavailable'',
      headers = [(''Content-Type'', ''text/plain'')],
      type = Default\<rparr>"

text \<open>
  \<^verbatim>\<open>caches.open(DYNAMIC_CACHE).then(cache => { cache.put(request, ...) })\<close>, which
  both the handler and \<^verbatim>\<open>fetchAndUpdate\<close> contain. The promise of \<^verbatim>\<open>put\<close> is not
  returned, so its rejection reaches nobody.
\<close>

definition put_dynamic :: "cache_storage \<Rightarrow> request \<Rightarrow> response \<Rightarrow> cache_storage" where
  "put_dynamic s request response =
     caches_put (caches_open s DYNAMIC_CACHE) DYNAMIC_CACHE request response"

text \<open>
  \<^verbatim>\<open>fetchAndUpdate\<close> (lines 123-133) returns nothing; it yields Cache Storage after
  its promise chain has settled and the calls it made. While its fetch is pending it
  has written nothing.
\<close>

definition fetchAndUpdate ::
  "network \<Rightarrow> cache_storage \<Rightarrow> request \<Rightarrow> cache_storage \<times> effect list" where
  "fetchAndUpdate net s request =
     (case net request of
        Fulfilled (Some response) \<Rightarrow>
          if status response = 200
          then (put_dynamic s request response,
                [Fetch request, CachesOpen DYNAMIC_CACHE, CachePut DYNAMIC_CACHE request response])
          else (s, [Fetch request])
      | Fulfilled None \<Rightarrow> (s, [Fetch request])
      | Rejected \<Rightarrow> (s, [Fetch request])
      | Pending \<Rightarrow> (s, [Fetch request]))"

text \<open>
  The listener registered for \<^verbatim>\<open>fetch\<close> events (lines 62-120), the
  \<^verbatim>\<open>handle\<close> of the specification. On a hit it calls \<^verbatim>\<open>fetchAndUpdate\<close> and
  returns the cached response without waiting for it. On a miss its answer is chained
  to the fetch, so it is pending as long as the fetch is. Its \<^verbatim>\<open>catch\<close> is attached
  to the fetch of the miss branch only; in the bypass branch the promise of
  \<^verbatim>\<open>fetch\<close> goes to \<^verbatim>\<open>respondWith\<close> as it is.
\<close>

definition handle :: "scope \<Rightarrow> network \<Rightarrow> cache_storage \<Rightarrow> request \<Rightarrow> result" where
  "handle location net s request =
     (if includes_str (href (url request)) ''script.google.com''
      then \<lparr>outcome = RespondWith (net request), caches = s, effects = [Fetch request]\<rparr>
      else if origin (url request) \<noteq> location_origin location
              \<and> \<not> includes_str (href (url request)) ''fonts.googleapis.com''
      then \<lparr>outcome = NotHandled, caches = s, effects = []\<rparr>
      else
        (case caches_match s request of
           Some cachedResponse \<Rightarrow>
             (case fetchAndUpdate net s request of
                (s', fx) \<Rightarrow>
                  \<lparr>outcome = RespondWith (Fulfilled (Some cachedResponse)),
                   caches = s',
                   effects = CachesMatch request # fx\<rparr>)
         | None \<Rightarrow>
             (case net request of
                Fulfilled None \<Rightarrow>
                  \<lparr>outcome = RespondWith (Fulfilled None),
                   caches = s,
                   effects = [CachesMatch request, Fetch request]\<rparr>
              | Fulfilled (Some response) \<Rightarrow>
                  if status response \<noteq> 200 \<or> type response = Error
                  then \<lparr>outcome = RespondWith (Fulfilled (Some response)),
                        caches = s,
                        effects = [CachesMatch request, Fetch request]\<rparr>
                  else \<lparr>outcome = RespondWith (Fulfilled (Some response)),
                        caches = put_dynamic s request response,
                        effects = [CachesMatch request,
                                   Fetch request,
                                   CachesOpen DYNAMIC_CACHE,
                                   CachePut DYNAMIC_CACHE request response]\<rparr>
              | Rejected \<Rightarrow>
                  if destination request = ''document''
                  then \<lparr>outcome = RespondWith (Fulfilled (caches_match s (index_html location))),
                        caches = s,
                        effects = [CachesMatch request,
                                   Fetch request,
                                   CachesMatch (index_html location)]\<rparr>
                  else \<lparr>outcome = RespondWith (Fulfilled (Some offline_response)),
                        caches = s,
                        effects = [CachesMatch request, Fetch request]\<rparr>
              | Pending \<Rightarrow>
                  \<lparr>outcome = RespondWith Pending,
                   caches = s,
                   effects = [CachesMatch request, Fetch request]\<rparr>)))"

subsection \<open>Concrete requests, responses and storages\<close>

text \<open>
  Inputs on which the handlers are evaluated further down: the application served from
  its own origin, requests to it and to the Apps Script endpoint, a few responses, a
  network that is down, one that does not answer, and one that answers every request
  with a given response.
\<close>

definition app_origin :: string where
  "app_origin = ''https://cortinarius-i.github.io''"

definition get_request :: "string \<Rightarrow> string \<Rightarrow> string \<Rightarrow> request" where
  "get_request u orig dest =
     \<lparr>url = \<lparr>href = u, origin = orig\<rparr>, method = ''GET'', destination = dest,
      request_headers = []\<rparr>"

definition app_scope :: scope where
  "app_scope =
     \<lparr>location_origin = app_origin,
      index_html = get_request ''https://cortinarius-i.github.io/SWETA/index.html'' app_origin []\<rparr>"

definition page_request :: request where
  "page_request =
     get_request ''https://cortinarius-i.github.io/SWETA/index.html'' app_origin ''document''"

definition data_request :: request where
  "data_request = get_request ''https://cortinarius-i.github.io/SWETA/data.json'' app_origin []"

definition script_request :: request where
  "script_request =
     get_request ''https://script.google.com/macros/s/abc/exec'' ''https://script.google.com'' []"

definition redirect_request :: request where
  "redirect_request =
     get_request ''https://cortinarius-i.github.io/SWETA/?next=script.google.com'' app_origin []"

definition text_response :: "nat \<Rightarrow> string \<Rightarrow> response" where
  "text_response code txt =
     \<lparr>body = txt, status = code, statusText = [],
      headers = [(''Content-Type'', ''text/plain'')], type = Basic\<rparr>"

definition old_page :: response where
  "old_page = text_response 200 ''old''"

definition new_page :: response where
  "new_page = text_response 200 ''new''"

definition no_content :: response where
  "no_content = text_response 204 []"

definition server_error :: response where
  "server_error = text_response 500 ''failed''"

text \<open>A response of status 200 that no cache accepts.\<close>

definition vary_star_page :: response where
  "vary_star_page =
     \<lparr>body = ''new'', status = 200, statusText = [],
      headers = [(''Content-Type'', ''text/plain''), (''vary'', ''Accept-Encoding, *'')],
      type = Basic\<rparr>"

definition net_down :: network where
  "net_down = (\<lambda>request. Rejected)"

definition net_pending :: network where
  "net_pending = (\<lambda>request. Pending)"

definition net_serving :: "response \<Rightarrow> network" where
  "net_serving r = (\<lambda>request. Fulfilled (Some r))"

text \<open>An empty static cache, and a second cache holding one response for one request.\<close>

definition storage_with :: "string \<Rightarrow> request \<Rightarrow> response \<Rightarrow> cache_storage" where
  "storage_with n request r = [(STATIC_CACHE, []), (n, [(request, r)])]"

text \<open>A static cache holding one response for one request, and an empty dynamic cache.\<close>

definition precached :: "request \<Rightarrow> response \<Rightarrow> cache_storage" where
  "precached request r = [(STATIC_CACHE, [(request, r)]), (DYNAMIC_CACHE, [])]"

text \<open>Cache Storage as a previous version of the worker left it, after the new one installed.\<close>

definition upgraded_storage :: cache_storage where
  "upgraded_storage =
     [(''sweta-static-v0.9.0'', [(page_request, old_page)]),
      (''sweta-dynamic-v0.9.0'', []),
      (''workbox-precache'', []),
      (STATIC_CACHE, [(page_request, new_page)]),
      (DYNAMIC_CACHE, [])]"

section \<open>Properties\<close>

subsection \<open>String tests\<close>

lemma startsWith_prefix: "startsWith s p \<longleftrightarrow> prefix p s"
  by (induction s p rule: startsWith.induct) auto

lemma includes_str_sublist: "includes_str s p \<longleftrightarrow> sublist p s"
  by (induction s) (simp_all add: startsWith_prefix sublist_Cons_right)

lemma includes_str_iff: "includes_str s p \<longleftrightarrow> (\<exists>pre post. s = pre @ p @ post)"
  by (simp add: includes_str_sublist sublist_def)

subsection \<open>Matching and putting in one cache\<close>

lemma matches_self:
  "put_accepts request response \<Longrightarrow> request_matches_cached_item request request response"
  by (auto simp: put_accepts_def request_matches_cached_item_def list_all_iff)

lemma query_cache_put:
  assumes "put_accepts request r"
  shows "query_cache (cache_put c request r) request = [(request, r)]"
proof -
  have "filter (\<lambda>(q, r'). request_matches_cached_item request q r')
          (filter (\<lambda>(q, r'). \<not> request_matches_cached_item request q r') c) = []"
    by (induction c) auto
  with assms matches_self [OF assms] show ?thesis
    by (simp add: query_cache_def cache_put_def)
qed

lemma cache_match_put:
  "put_accepts request r \<Longrightarrow> cache_match (cache_put c request r) request = Some r"
  by (simp add: cache_match_def query_cache_put put_accepts_def)

lemma caches_put_rejected: "\<not> put_accepts request r \<Longrightarrow> caches_put s n request r = s"
  by (induction s) (auto simp: caches_put_def cache_put_def)

lemma stored_cache_put: "set (map snd (cache_put c request r)) \<subseteq> insert r (set (map snd c))"
  by (auto simp: cache_put_def)

subsection \<open>Matching in Cache Storage\<close>

lemma caches_match_append:
  "caches_match (s @ t) q =
     (case caches_match s q of Some r \<Rightarrow> Some r | None \<Rightarrow> caches_match t q)"
  by (induction s) (auto split: option.splits)

lemma caches_match_open: "caches_match (caches_open s n) q = caches_match s q"
  by (simp add: caches_open_def caches_match_append cache_match_def query_cache_def
        split: option.splits)

lemma caches_match_Some_GET: "caches_match s q = Some e \<Longrightarrow> method q = ''GET''"
  by (induction s) (auto simp: cache_match_def split: option.splits if_splits)

lemma caches_open_has: "n \<in> set (caches_keys (caches_open s n))"
  by (simp add: caches_open_def caches_keys_def)

lemma caches_before_absent:
  "n \<notin> set (caches_keys s) \<Longrightarrow> caches_before (s @ t) n = s @ caches_before t n"
  by (induction s) (auto simp: caches_before_def caches_keys_def)

lemma caches_before_open: "caches_before (caches_open s n) n = caches_before s n"
proof (cases "n \<in> set (caches_keys s)")
  case True
  then show ?thesis by (simp add: caches_open_def)
next
  case False
  then have "caches_before (s @ [(n, [])]) n = s @ caches_before [(n, [])] n"
    and "caches_before (s @ []) n = s @ caches_before [] n"
    by (rule caches_before_absent)+
  with False show ?thesis
    by (simp add: caches_open_def) (simp add: caches_before_def)
qed

text \<open>A match in the caches searched before a given one is the match in all of them.\<close>

lemma caches_match_before_Some:
  "caches_match (caches_before s n) q = Some e \<Longrightarrow> caches_match s q = Some e"
proof -
  assume a: "caches_match (caches_before s n) q = Some e"
  have "s = caches_before s n @ dropWhile (\<lambda>(n', c). n' \<noteq> n) s"
    by (simp add: caches_before_def)
  then have "caches_match s q =
      (case caches_match (caches_before s n) q of
         Some r \<Rightarrow> Some r
       | None \<Rightarrow> caches_match (dropWhile (\<lambda>(n', c). n' \<noteq> n) s) q)"
    by (metis caches_match_append)
  with a show ?thesis by simp
qed

lemma caches_match_before_None:
  "caches_match s q = None \<Longrightarrow> caches_match (caches_before s n) q = None"
  using caches_match_before_Some [of s n q] by (cases "caches_match (caches_before s n) q") auto

text \<open>
  A \<^verbatim>\<open>put\<close> into the cache of a given name leaves a match in an earlier cache as it
  is; without one, the pair put is the match.
\<close>

lemma caches_match_put_before:
  "caches_match (caches_before s n) q = Some e \<Longrightarrow>
   caches_match (caches_put s n request r) q = Some e"
proof (induction s)
  case Nil
  then show ?case by (simp add: caches_before_def)
next
  case (Cons a s)
  obtain n' c where a: "a = (n', c)" by (cases a)
  show ?case
  proof (cases "n' = n")
    case True
    with Cons.prems show ?thesis by (simp add: a caches_before_def)
  next
    case False
    show ?thesis
    proof (cases "cache_match c q")
      case None
      with Cons.prems False have "caches_match (caches_before s n) q = Some e"
        by (simp add: a caches_before_def)
      from Cons.IH [OF this] None False show ?thesis
        by (simp add: a caches_put_def)
    next
      case (Some x)
      with Cons.prems False have "x = e"
        by (simp add: a caches_before_def)
      with Some False show ?thesis
        by (simp add: a caches_put_def)
    qed
  qed
qed

lemma caches_match_put_first:
  "caches_match (caches_before s n) request = None \<Longrightarrow> n \<in> set (caches_keys s) \<Longrightarrow>
   put_accepts request r \<Longrightarrow>
   caches_match (caches_put s n request r) request = Some r"
proof (induction s)
  case Nil
  then show ?case by (simp add: caches_keys_def)
next
  case (Cons a s)
  obtain n' c where a: "a = (n', c)" by (cases a)
  show ?case
  proof (cases "n' = n")
    case True
    with Cons.prems(3) show ?thesis
      by (simp add: a caches_put_def cache_match_put)
  next
    case False
    with Cons.prems(1) have c: "cache_match c request = None"
      and rest: "caches_match (caches_before s n) request = None"
      by (auto simp: a caches_before_def split: option.splits)
    from False Cons.prems(2) have "n \<in> set (caches_keys s)"
      by (simp add: a caches_keys_def)
    from Cons.IH [OF rest this Cons.prems(3)] False c show ?thesis
      by (simp add: a caches_put_def)
  qed
qed

lemma map_of_caches_put:
  "map_of (caches_put s n request r) n = map_option (\<lambda>c. cache_put c request r) (map_of s n)"
  by (induction s) (auto simp: caches_put_def)

lemma map_of_caches_open: "\<exists>c. map_of (caches_open s n) n = Some c"
proof (cases "n \<in> set (caches_keys s)")
  case True
  then have "map_of s n \<noteq> None"
    by (simp add: caches_keys_def map_of_eq_None_iff)
  with True show ?thesis by (auto simp: caches_open_def)
next
  case False
  then have "map_of s n = None"
    by (simp add: caches_keys_def map_of_eq_None_iff)
  with False show ?thesis by (simp add: caches_open_def map_add_def)
qed

lemma stored_caches_put: "stored (caches_put s n request r) \<subseteq> insert r (stored s)"
proof (induction s)
  case Nil
  show ?case by (simp add: caches_put_def stored_def)
next
  case (Cons a s)
  obtain n' c where a: "a = (n', c)" by (cases a)
  have split: "stored (caches_put (a # s) n request r) =
      set (map snd (if n' = n then cache_put c request r else c))
        \<union> stored (caches_put s n request r)"
    by (simp add: a caches_put_def stored_def)
  have "stored (a # s) = set (map snd c) \<union> stored s"
    by (simp add: a stored_def)
  with split Cons.IH stored_cache_put [of c request r] show ?case
    by (auto split: if_splits)
qed

lemma stored_caches_open: "stored (caches_open s n) = stored s"
  by (simp add: caches_open_def stored_def)

subsection \<open>Writes into the dynamic cache\<close>

lemma partition_matches_put_dynamic:
  assumes "put_accepts request r"
  shows "partition_matches (put_dynamic s request r) DYNAMIC_CACHE request = Some [(request, r)]"
proof -
  obtain c where "map_of (caches_open s DYNAMIC_CACHE) DYNAMIC_CACHE = Some c"
    using map_of_caches_open by blast
  then show ?thesis
    by (simp add: partition_matches_def put_dynamic_def map_of_caches_put query_cache_put [OF assms])
qed

lemma stored_put_dynamic: "stored (put_dynamic s request r) \<subseteq> insert r (stored s)"
  using stored_caches_put [of "caches_open s DYNAMIC_CACHE"]
  by (simp add: put_dynamic_def stored_caches_open)

lemma put_dynamic_rejected:
  "\<not> put_accepts request r \<Longrightarrow> put_dynamic s request r = caches_open s DYNAMIC_CACHE"
  by (simp add: put_dynamic_def caches_put_rejected)

text \<open>What \<^verbatim>\<open>caches.match\<close> finds for the request after an accepted write.\<close>

lemma caches_match_put_dynamic:
  assumes "put_accepts request r"
  shows "caches_match (put_dynamic s request r) request =
           (case caches_match (caches_before s DYNAMIC_CACHE) request of
              Some e \<Rightarrow> Some e
            | None \<Rightarrow> Some r)"
proof (cases "caches_match (caches_before s DYNAMIC_CACHE) request")
  case None
  then have "caches_match (caches_before (caches_open s DYNAMIC_CACHE) DYNAMIC_CACHE) request = None"
    by (simp add: caches_before_open)
  then have "caches_match (put_dynamic s request r) request = Some r"
    unfolding put_dynamic_def
    by (rule caches_match_put_first) (simp_all add: caches_open_has assms)
  with None show ?thesis by simp
next
  case (Some e)
  then have "caches_match (caches_before (caches_open s DYNAMIC_CACHE) DYNAMIC_CACHE) request = Some e"
    by (simp add: caches_before_open)
  then have "caches_match (put_dynamic s request r) request = Some e"
    unfolding put_dynamic_def by (rule caches_match_put_before)
  with Some show ?thesis by simp
qed

lemma caches_match_put_dynamic_miss:
  assumes "put_accepts request r" "caches_match s request = None"
  shows "caches_match (put_dynamic s request r) request = Some r"
  using caches_match_put_dynamic [OF assms(1), of s]
    caches_match_before_None [OF assms(2), of DYNAMIC_CACHE]
  by simp

subsection \<open>What \<^verbatim>\<open>fetchAndUpdate\<close> and the handler write\<close>

lemma fetchAndUpdate_puts:
  "CachePut n q r \<in> set (snd (fetchAndUpdate net s request)) \<Longrightarrow>
   net request = Fulfilled (Some r) \<and> status r = 200"
  by (cases "net request")
     (auto simp: fetchAndUpdate_def split: option.splits if_splits)

lemma fetchAndUpdate_stored:
  "stored (fst (fetchAndUpdate net s request))
     \<subseteq> stored s \<union> {r. net request = Fulfilled (Some r) \<and> status r = 200}"
proof (cases "net request")
  case (Fulfilled x)
  show ?thesis
  proof (cases x)
    case None
    with Fulfilled show ?thesis by (simp add: fetchAndUpdate_def)
  next
    case (Some r)
    with Fulfilled stored_put_dynamic [of s request r] show ?thesis
      by (auto simp: fetchAndUpdate_def)
  qed
next
  case Rejected
  then show ?thesis by (simp add: fetchAndUpdate_def)
next
  case Pending
  then show ?thesis by (simp add: fetchAndUpdate_def)
qed

text \<open>The handler on a request that reaches the cache lookup and finds an entry.\<close>

lemma handle_hit:
  assumes "\<not> includes_str (href (url request)) ''script.google.com''"
    and "origin (url request) = location_origin location
         \<or> includes_str (href (url request)) ''fonts.googleapis.com''"
    and "caches_match s request = Some cachedResponse"
  shows "handle location net s request
         = \<lparr>outcome = RespondWith (Fulfilled (Some cachedResponse)),
            caches = fst (fetchAndUpdate net s request),
            effects = CachesMatch request # snd (fetchAndUpdate net s request)\<rparr>"
  using assms by (auto simp: handle_def case_prod_beta)

lemma handle_puts:
  "CachePut n q r \<in> set (effects (handle location net s request)) \<Longrightarrow>
   net request = Fulfilled (Some r) \<and> status r = 200"
proof (cases "caches_match s request")
  case None
  assume "CachePut n q r \<in> set (effects (handle location net s request))"
  with None show ?thesis
    by (cases "net request")
       (simp_all add: handle_def split: if_splits option.splits)
next
  case (Some e)
  assume "CachePut n q r \<in> set (effects (handle location net s request))"
  with Some fetchAndUpdate_puts [of n q r net s request] show ?thesis
    by (simp add: handle_def case_prod_beta split: if_splits)
qed

lemma handle_stored:
  "stored (caches (handle location net s request))
     \<subseteq> stored s \<union> {r. net request = Fulfilled (Some r) \<and> status r = 200}"
proof (cases "caches_match s request")
  case None
  show ?thesis
  proof (cases "net request")
    case (Fulfilled x)
    show ?thesis
    proof (cases x)
      case N: None
      with None Fulfilled show ?thesis by (simp add: handle_def)
    next
      case (Some r)
      with None Fulfilled stored_put_dynamic [of s request r] show ?thesis
        by (auto simp: handle_def)
    qed
  next
    case Rejected
    with None show ?thesis by (simp add: handle_def)
  next
    case Pending
    with None show ?thesis by (simp add: handle_def)
  qed
next
  case (Some e)
  with fetchAndUpdate_stored [of net s request] show ?thesis
    by (simp add: handle_def case_prod_beta)
qed

subsection \<open>Deleting caches\<close>

lemma caches_delete_filter:
  "caches_delete (filter (\<lambda>(n, c). P n) s) a = filter (\<lambda>(n, c). P n \<and> n \<noteq> a) s"
  by (induction s) (auto simp: caches_delete_def)

lemma foldl_caches_delete:
  "foldl caches_delete (filter (\<lambda>(n, c). P n) s) ns = filter (\<lambda>(n, c). P n \<and> n \<notin> set ns) s"
proof (induction ns arbitrary: P)
  case Nil
  show ?case by simp
next
  case (Cons a ns)
  have "foldl caches_delete (filter (\<lambda>(n, c). P n) s) (a # ns)
      = foldl caches_delete (filter (\<lambda>(n, c). P n \<and> n \<noteq> a) s) ns"
    by (simp add: caches_delete_filter)
  also have "\<dots> = filter (\<lambda>(n, c). (P n \<and> n \<noteq> a) \<and> n \<notin> set ns) s"
    by (rule Cons.IH)
  also have "\<dots> = filter (\<lambda>(n, c). P n \<and> n \<notin> set (a # ns)) s"
    by (rule filter_cong) auto
  finally show ?case .
qed

lemma activate_eq: "activate s = filter (\<lambda>(n, c). \<not> is_old_cache n) s"
proof -
  have "activate s
      = foldl caches_delete (filter (\<lambda>(n, c). True) s) (filter is_old_cache (map fst s))"
    by (simp add: activate_def caches_keys_def)
  also have "\<dots> = filter (\<lambda>(n, c). True \<and> n \<notin> set (filter is_old_cache (map fst s))) s"
    by (rule foldl_caches_delete)
  also have "\<dots> = filter (\<lambda>(n, c). \<not> is_old_cache n) s"
    by (rule filter_cong) force+
  finally show ?thesis .
qed

lemma map_of_filter_names:
  "map_of (filter (\<lambda>(n, c). P n) s) n = (if P n then map_of s n else None)"
  by (induction s) auto

text \<open>
  What a second lookup finds after the refresh of a hit: the response the refresh
  brought, if it had status 200, was accepted by \<^verbatim>\<open>put\<close> and no cache searched
  before the dynamic one holds a match; the entry found before, otherwise.
\<close>

lemma lookup_after_refresh:
  assumes "caches_match s request = Some e"
  shows "caches_match (fst (fetchAndUpdate net s request)) request =
           (case net request of
              Fulfilled (Some r) \<Rightarrow>
                if status r = 200 \<and> ''*'' \<notin> set (vary_fields r)
                   \<and> caches_match (caches_before s DYNAMIC_CACHE) request = None
                then Some r else Some e
            | _ \<Rightarrow> Some e)"
proof (cases "net request")
  case (Fulfilled x)
  show ?thesis
  proof (cases x)
    case None
    with Fulfilled assms show ?thesis by (simp add: fetchAndUpdate_def)
  next
    case (Some r)
    have m: "method request = ''GET''"
      using assms by (rule caches_match_Some_GET)
    show ?thesis
    proof (cases "status r = 200")
      case False
      with Fulfilled Some assms show ?thesis by (simp add: fetchAndUpdate_def)
    next
      case ok: True
      then have after: "fst (fetchAndUpdate net s request) = put_dynamic s request r"
        using Fulfilled Some by (simp add: fetchAndUpdate_def)
      show ?thesis
      proof (cases "''*'' \<in> set (vary_fields r)")
        case True
        then have "\<not> put_accepts request r" by (simp add: put_accepts_def)
        then have "caches_match (put_dynamic s request r) request = Some e"
          using assms by (simp add: put_dynamic_rejected caches_match_open)
        with after True Fulfilled Some show ?thesis by simp
      next
        case False
        with ok m have acc: "put_accepts request r" by (simp add: put_accepts_def)
        show ?thesis
        proof (cases "caches_match (caches_before s DYNAMIC_CACHE) request")
          case None
          with caches_match_put_dynamic [OF acc, of s]
          have "caches_match (put_dynamic s request r) request = Some r" by simp
          with after None False ok Fulfilled Some show ?thesis by simp
        next
          case (Some e')
          then have "e' = e"
            using assms caches_match_before_Some [of s DYNAMIC_CACHE request e'] by simp
          with Some caches_match_put_dynamic [OF acc, of s]
          have "caches_match (put_dynamic s request r) request = Some e" by simp
          with after Some Fulfilled \<open>x = Some r\<close> show ?thesis by simp
        qed
      qed
    qed
  qed
next
  case Rejected
  with assms show ?thesis by (simp add: fetchAndUpdate_def)
next
  case Pending
  with assms show ?thesis by (simp add: fetchAndUpdate_def)
qed

subsection \<open>The concrete inputs\<close>

lemma vary_fields_text_response: "vary_fields (text_response st b) = []"
  by (simp add: vary_fields_def header_get_def same_name_def to_lower_def text_response_def)

lemma vary_fields_vary_star_page: "vary_fields vary_star_page = [''Accept-Encoding'', ''*'']"
  by (simp add: vary_fields_def header_get_def same_name_def to_lower_def vary_star_page_def
        trim_def is_space_def)

lemma get_request_matches:
  "request_matches_cached_item (get_request u orig dest) (get_request u orig' dest')
     (text_response st b)"
  by (simp add: request_matches_cached_item_def get_request_def vary_fields_text_response)

lemma put_accepts_text_response:
  "st \<noteq> 206 \<Longrightarrow> put_accepts (get_request u orig dest) (text_response st b)"
  using vary_fields_text_response [of st b]
  by (simp add: put_accepts_def get_request_def text_response_def)

lemma lookup_storage_with:
  "caches_match (storage_with n (get_request u a d) (text_response st b)) (get_request u a d)
     = Some (text_response st b)"
  using get_request_matches [of u a d a d st b]
  by (simp add: storage_with_def cache_match_def query_cache_def)
     (simp add: get_request_def)

lemma lookup_page: "caches_match (storage_with n page_request old_page) page_request = Some old_page"
  unfolding page_request_def old_page_def by (rule lookup_storage_with)

lemma lookup_script:
  "caches_match (storage_with n script_request old_page) script_request = Some old_page"
  unfolding script_request_def old_page_def by (rule lookup_storage_with)

lemma lookup_empty_static: "caches_match [(STATIC_CACHE, [])] q = None"
  by (simp add: cache_match_def query_cache_def)

lemma page_not_bypassed: "\<not> includes_str (href (url page_request)) ''script.google.com''"
  by (simp add: page_request_def get_request_def)

lemma data_not_bypassed: "\<not> includes_str (href (url data_request)) ''script.google.com''"
  by (simp add: data_request_def get_request_def)

lemma script_bypassed: "includes_str (href (url script_request)) ''script.google.com''"
  by (simp add: script_request_def get_request_def)

lemma redirect_bypassed: "includes_str (href (url redirect_request)) ''script.google.com''"
  by (simp add: redirect_request_def get_request_def)

lemma same_origin:
  "origin (url page_request) = location_origin app_scope"
  "origin (url data_request) = location_origin app_scope"
  "origin (url redirect_request) = location_origin app_scope"
  by (simp_all add: page_request_def data_request_def redirect_request_def get_request_def
        app_scope_def)

lemma pages_differ: "old_page \<noteq> new_page" "old_page \<noteq> no_content" "old_page \<noteq> vary_star_page"
  by (simp_all add: old_page_def new_page_def no_content_def vary_star_page_def text_response_def)

lemma status_pages:
  "status old_page = 200" "status new_page = 200" "status no_content = 204"
  "status server_error = 500" "status vary_star_page = 200"
  "type new_page \<noteq> Error" "type vary_star_page \<noteq> Error"
  by (simp_all add: old_page_def new_page_def no_content_def server_error_def vary_star_page_def
        text_response_def)

lemma vary_new_page: "''*'' \<notin> set (vary_fields new_page)"
  by (simp add: new_page_def vary_fields_text_response)

lemma vary_star_rejected: "\<not> put_accepts request vary_star_page"
  by (simp add: put_accepts_def vary_fields_vary_star_page)

lemma net_serving_serves: "net_serving r request = Fulfilled (Some r)"
  by (simp add: net_serving_def)

lemma dynamic_entries_storage_with:
  "partition_matches (storage_with DYNAMIC_CACHE page_request old_page) DYNAMIC_CACHE page_request
     = Some [(page_request, old_page)]"
  using get_request_matches [of "''https://cortinarius-i.github.io/SWETA/index.html''"
      app_origin "''document''" app_origin "''document''" 200 "''old''"]
  by (simp add: partition_matches_def storage_with_def query_cache_def STATIC_CACHE_def
        DYNAMIC_CACHE_def page_request_def old_page_def)

lemma open_storage_with: "caches_open (storage_with n request r) n = storage_with n request r"
  by (simp add: caches_open_def caches_keys_def storage_with_def)

text \<open>Two refreshes of a cached page that write nothing: status 204, and \<^verbatim>\<open>Vary: *\<close>.\<close>

lemma refresh_no_content:
  "caches (handle app_scope (net_serving no_content)
      (storage_with DYNAMIC_CACHE page_request old_page) page_request)
     = storage_with DYNAMIC_CACHE page_request old_page"
  using page_not_bypassed same_origin(1)
  by (simp add: handle_def lookup_page fetchAndUpdate_def net_serving_serves status_pages)

lemma refresh_vary_star:
  "caches (handle app_scope (net_serving vary_star_page)
      (storage_with DYNAMIC_CACHE page_request old_page) page_request)
     = storage_with DYNAMIC_CACHE page_request old_page"
  using page_not_bypassed same_origin(1)
  by (simp add: handle_def lookup_page fetchAndUpdate_def net_serving_serves status_pages
        put_dynamic_rejected [OF vary_star_rejected] open_storage_with)

lemma put_accepts_page: "put_accepts page_request new_page"
  unfolding page_request_def new_page_def by (rule put_accepts_text_response) simp

lemma cache_match_page: "cache_match [(page_request, old_page)] page_request = Some old_page"
  using get_request_matches [of "''https://cortinarius-i.github.io/SWETA/index.html''"
      app_origin "''document''" app_origin "''document''" 200 "''old''"]
  by (simp add: cache_match_def query_cache_def page_request_def old_page_def)
     (simp add: get_request_def)

lemma lookup_precached:
  "caches_match (precached page_request old_page) page_request = Some old_page"
  by (simp add: precached_def cache_match_page)

lemma lookup_before_precached:
  "caches_match (caches_before (precached page_request old_page) DYNAMIC_CACHE) page_request
     = Some old_page"
  by (simp add: precached_def caches_before_def STATIC_CACHE_def DYNAMIC_CACHE_def
        cache_match_page)

subsection \<open>Network failure on a document request\<close>

text \<open>
  C1. The claim: when the foreground fetch fails, the destination is a document and no
  fallback document is stored, the handler still answers with a well-formed 503
  plain-text response. The source does not: the \<^verbatim>\<open>catch\<close> branch returns
  \<^verbatim>\<open>caches.match('./index.html')\<close> for a document, found or not, and builds the
  503 response for other destinations only. So for a request that reaches the cache
  lookup, misses, and whose fetch is rejected: if the destination is a document and
  nothing is stored for \<^verbatim>\<open>./index.html\<close>, the promise handed to
  \<^verbatim>\<open>respondWith\<close> is fulfilled with \<^verbatim>\<open>undefined\<close>; for any other
  destination it is fulfilled with the 503 response.
\<close>

theorem handle_offline_document_no_fallback:
  assumes "\<not> includes_str (href (url request)) ''script.google.com''"
    and "origin (url request) = location_origin location
         \<or> includes_str (href (url request)) ''fonts.googleapis.com''"
    and "caches_match s request = None"
    and "net request = Rejected"
  shows "(destination request = ''document''
            \<and> caches_match s (index_html location) = None \<longrightarrow>
          outcome (handle location net s request) = RespondWith (Fulfilled None))
         \<and> (destination request \<noteq> ''document'' \<longrightarrow>
          outcome (handle location net s request)
            = RespondWith (Fulfilled (Some offline_response)))"
  using assms by (auto simp: handle_def)

text \<open>
  The network is down, the static cache holds nothing, and a document is requested:
  no response. The same for a request that is not a document: the 503 response.
\<close>

theorem handle_offline_document_no_fallback_witness:
  "net_down page_request = Rejected
   \<and> destination page_request = ''document''
   \<and> caches_match [(STATIC_CACHE, [])] (index_html app_scope) = None
   \<and> outcome (handle app_scope net_down [(STATIC_CACHE, [])] page_request)
       = RespondWith (Fulfilled None)
   \<and> outcome (handle app_scope net_down [(STATIC_CACHE, [])] data_request)
       = RespondWith (Fulfilled (Some offline_response))
   \<and> status offline_response = 503"
proof -
  have down: "net_down page_request = Rejected" "net_down data_request = Rejected"
    by (simp_all add: net_down_def)
  have dest: "destination page_request = ''document''" "destination data_request \<noteq> ''document''"
    by (simp_all add: page_request_def data_request_def get_request_def)
  from handle_offline_document_no_fallback
      [of page_request app_scope "[(STATIC_CACHE, [])]" net_down]
    handle_offline_document_no_fallback
      [of data_request app_scope "[(STATIC_CACHE, [])]" net_down]
  show ?thesis
    using down dest page_not_bypassed data_not_bypassed same_origin
    by (simp add: lookup_empty_static offline_response_def del: caches_match.simps)
qed

subsection \<open>Cache hit\<close>

text \<open>
  C2, as amended. For every request that reaches the cache lookup (its URL does not
  contain \<^verbatim>\<open>script.google.com\<close>, and it is same-origin or its URL contains
  \<^verbatim>\<open>fonts.googleapis.com\<close>) and has an entry in Cache Storage, the handler
  responds with exactly that entry without waiting on any network round-trip: the
  answer is that entry whatever the state of the fetch, and while the fetch is pending
  the entry has been returned with the fetch issued and nothing written. The caller
  sees the cached value, never a freshly fetched one.
\<close>

theorem handle_cache_hit:
  assumes "\<not> includes_str (href (url request)) ''script.google.com''"
    and "origin (url request) = location_origin location
         \<or> includes_str (href (url request)) ''fonts.googleapis.com''"
    and "caches_match s request = Some cachedResponse"
  shows "outcome (handle location net s request) = RespondWith (Fulfilled (Some cachedResponse))
         \<and> (net request = Pending \<longrightarrow>
              handle location net s request
                = \<lparr>outcome = RespondWith (Fulfilled (Some cachedResponse)),
                   caches = s,
                   effects = [CachesMatch request, Fetch request]\<rparr>)"
  using assms by (auto simp: handle_def fetchAndUpdate_def case_prod_beta)

text \<open>
  The entry is returned while the fetch is pending, and when the network serves another
  page. A miss, in contrast, waits: its answer is pending as long as the fetch is.
\<close>

theorem handle_cache_hit_witness:
  "handle app_scope net_pending (storage_with DYNAMIC_CACHE page_request old_page) page_request
     = \<lparr>outcome = RespondWith (Fulfilled (Some old_page)),
        caches = storage_with DYNAMIC_CACHE page_request old_page,
        effects = [CachesMatch page_request, Fetch page_request]\<rparr>
   \<and> outcome (handle app_scope (net_serving new_page)
        (storage_with DYNAMIC_CACHE page_request old_page) page_request)
     = RespondWith (Fulfilled (Some old_page))
   \<and> old_page \<noteq> new_page
   \<and> outcome (handle app_scope net_pending [(STATIC_CACHE, [])] data_request)
     = RespondWith Pending"
proof -
  have waits: "outcome (handle app_scope net_pending [(STATIC_CACHE, [])] data_request)
     = RespondWith Pending"
    using data_not_bypassed same_origin(2)
    by (simp add: handle_def lookup_empty_static net_pending_def del: caches_match.simps)
  from handle_cache_hit [of page_request app_scope
      "storage_with DYNAMIC_CACHE page_request old_page" old_page net_pending]
    handle_cache_hit [of page_request app_scope
      "storage_with DYNAMIC_CACHE page_request old_page" old_page "net_serving new_page"]
  show ?thesis
    using waits pages_differ(1) page_not_bypassed same_origin(1)
    by (simp add: lookup_page net_pending_def)
qed

text \<open>
  C2 as stated, for every request with an entry, fails: a request to the Apps Script
  endpoint whose URL has an entry in the dynamic cache is answered from the network.
\<close>

theorem handle_cache_hit_counterexample:
  "caches_match (storage_with DYNAMIC_CACHE script_request old_page) script_request
     = Some old_page
   \<and> outcome (handle app_scope (net_serving new_page)
        (storage_with DYNAMIC_CACHE script_request old_page) script_request)
       = RespondWith (Fulfilled (Some new_page))
   \<and> outcome (handle app_scope (net_serving new_page)
        (storage_with DYNAMIC_CACHE script_request old_page) script_request)
       \<noteq> RespondWith (Fulfilled (Some old_page))"
  using script_bypassed pages_differ(1)
  by (simp add: handle_def lookup_script net_serving_def)

subsection \<open>Background refresh\<close>

text \<open>
  C3, as amended. On every cache hit the handler responds with the cached entry
  whatever the background fetch does, so no failure of the refresh reaches the caller.
  If the background fetch is fulfilled with a response of status exactly 200 whose
  \<^verbatim>\<open>Vary\<close> header does not list \<^verbatim>\<open>*\<close>, the dynamic cache afterwards holds that
  response, and only it, for the request. If the response has status 200 and
  \<^verbatim>\<open>Vary\<close> lists \<^verbatim>\<open>*\<close>, the dynamic cache is opened and nothing is written. If
  the fetch is rejected, pending or fulfilled with any other status, Cache Storage is
  left as it was.
\<close>

theorem handle_cache_hit_refresh:
  assumes "\<not> includes_str (href (url request)) ''script.google.com''"
    and "origin (url request) = location_origin location
         \<or> includes_str (href (url request)) ''fonts.googleapis.com''"
    and "caches_match s request = Some cachedResponse"
  shows "outcome (handle location net s request) = RespondWith (Fulfilled (Some cachedResponse))
         \<and> (\<forall>response. net request = Fulfilled (Some response) \<and> status response = 200
                \<and> ''*'' \<notin> set (vary_fields response) \<longrightarrow>
               partition_matches (caches (handle location net s request)) DYNAMIC_CACHE request
                 = Some [(request, response)])
         \<and> (\<forall>response. net request = Fulfilled (Some response) \<and> status response = 200
                \<and> ''*'' \<in> set (vary_fields response) \<longrightarrow>
               caches (handle location net s request) = caches_open s DYNAMIC_CACHE)
         \<and> ((\<forall>response. net request = Fulfilled (Some response) \<longrightarrow> status response \<noteq> 200) \<longrightarrow>
               caches (handle location net s request) = s)"
proof -
  have m: "method request = ''GET''"
    using assms(3) by (rule caches_match_Some_GET)
  have hit: "handle location net s request
         = \<lparr>outcome = RespondWith (Fulfilled (Some cachedResponse)),
            caches = fst (fetchAndUpdate net s request),
            effects = CachesMatch request # snd (fetchAndUpdate net s request)\<rparr>"
    using assms by (rule handle_hit)
  have written: "partition_matches (fst (fetchAndUpdate net s request)) DYNAMIC_CACHE request
                 = Some [(request, response)]"
    if "net request = Fulfilled (Some response)" "status response = 200"
      "''*'' \<notin> set (vary_fields response)" for response
  proof -
    from that m have "put_accepts request response" by (simp add: put_accepts_def)
    then show ?thesis
      using that by (simp add: fetchAndUpdate_def partition_matches_put_dynamic)
  qed
  have refused: "fst (fetchAndUpdate net s request) = caches_open s DYNAMIC_CACHE"
    if "net request = Fulfilled (Some response)" "status response = 200"
      "''*'' \<in> set (vary_fields response)" for response
  proof -
    from that have "\<not> put_accepts request response" by (simp add: put_accepts_def)
    then show ?thesis
      using that by (simp add: fetchAndUpdate_def put_dynamic_rejected)
  qed
  have untouched: "fst (fetchAndUpdate net s request) = s"
    if "\<forall>response. net request = Fulfilled (Some response) \<longrightarrow> status response \<noteq> 200"
    using that by (cases "net request") (auto simp: fetchAndUpdate_def split: option.splits)
  show ?thesis
    unfolding hit using written refused untouched by simp
qed

theorem handle_cache_hit_refresh_witness:
  "outcome (handle app_scope (net_serving new_page)
      (storage_with DYNAMIC_CACHE page_request old_page) page_request)
     = RespondWith (Fulfilled (Some old_page))
   \<and> partition_matches (caches (handle app_scope (net_serving new_page)
        (storage_with DYNAMIC_CACHE page_request old_page) page_request)) DYNAMIC_CACHE
        page_request = Some [(page_request, new_page)]
   \<and> outcome (handle app_scope net_down
        (storage_with DYNAMIC_CACHE page_request old_page) page_request)
       = RespondWith (Fulfilled (Some old_page))
   \<and> caches (handle app_scope net_down
        (storage_with DYNAMIC_CACHE page_request old_page) page_request)
       = storage_with DYNAMIC_CACHE page_request old_page"
  using handle_cache_hit_refresh [of page_request app_scope
      "storage_with DYNAMIC_CACHE page_request old_page" old_page "net_serving new_page"]
    handle_cache_hit_refresh [of page_request app_scope
      "storage_with DYNAMIC_CACHE page_request old_page" old_page net_down]
    page_not_bypassed same_origin(1) vary_new_page
  by (simp add: lookup_page net_serving_serves status_pages net_down_def)

text \<open>
  C3 as stated, for every refresh that succeeds with a 2xx status, fails twice over: a
  background fetch fulfilled with status 204 writes nothing, and neither does one
  fulfilled with status 200 and a \<^verbatim>\<open>Vary\<close> header that lists \<^verbatim>\<open>*\<close>, which
  \<^verbatim>\<open>cache.put\<close> rejects. In both runs the dynamic cache keeps the old entry.
\<close>

theorem handle_cache_hit_refresh_counterexample:
  "caches_match (storage_with DYNAMIC_CACHE page_request old_page) page_request = Some old_page
   \<and> net_serving no_content page_request = Fulfilled (Some no_content)
   \<and> 200 \<le> status no_content \<and> status no_content < 300
   \<and> partition_matches (caches (handle app_scope (net_serving no_content)
        (storage_with DYNAMIC_CACHE page_request old_page) page_request)) DYNAMIC_CACHE
        page_request = Some [(page_request, old_page)]
   \<and> old_page \<noteq> no_content
   \<and> net_serving vary_star_page page_request = Fulfilled (Some vary_star_page)
   \<and> status vary_star_page = 200
   \<and> partition_matches (caches (handle app_scope (net_serving vary_star_page)
        (storage_with DYNAMIC_CACHE page_request old_page) page_request)) DYNAMIC_CACHE
        page_request = Some [(page_request, old_page)]
   \<and> old_page \<noteq> vary_star_page"
  by (simp add: lookup_page net_serving_serves status_pages refresh_no_content refresh_vary_star
        dynamic_entries_storage_with pages_differ)

subsection \<open>Bypass\<close>

text \<open>
  C4. For every request whose URL matches the bypass pattern, the handler makes no call
  on Cache Storage, neither a read nor a write: the only call is the fetch, Cache
  Storage is unchanged, and what is handed to \<^verbatim>\<open>respondWith\<close> is the promise of
  the fetch itself.
\<close>

theorem handle_bypass:
  assumes "includes_str (href (url request)) ''script.google.com''"
  shows "handle location net s request
         = \<lparr>outcome = RespondWith (net request), caches = s, effects = [Fetch request]\<rparr>"
  using assms by (simp add: handle_def)

theorem handle_bypass_witness:
  "handle app_scope (net_serving new_page)
      (storage_with DYNAMIC_CACHE script_request old_page) script_request
     = \<lparr>outcome = RespondWith (Fulfilled (Some new_page)),
        caches = storage_with DYNAMIC_CACHE script_request old_page,
        effects = [Fetch script_request]\<rparr>"
  using handle_bypass [of script_request app_scope "net_serving new_page"
      "storage_with DYNAMIC_CACHE script_request old_page"] script_bypassed
  by (simp add: net_serving_serves)

subsection \<open>Cache miss\<close>

text \<open>
  C5, as amended. For every same-origin \<^verbatim>\<open>GET\<close> request whose URL does not contain
  \<^verbatim>\<open>script.google.com\<close>, that has no entry in Cache Storage and whose fetch is
  fulfilled with a response of status 200, of a type other than \<^verbatim>\<open>error\<close> and
  with no \<^verbatim>\<open>*\<close> in its \<^verbatim>\<open>Vary\<close> header, the handler responds with that
  response, and afterwards \<^verbatim>\<open>caches.match\<close> finds the same response for the
  request, the one entry the dynamic cache holds for it.
\<close>

theorem handle_cache_miss_stores:
  assumes "\<not> includes_str (href (url request)) ''script.google.com''"
    and "origin (url request) = location_origin location"
    and "method request = ''GET''"
    and "caches_match s request = None"
    and "net request = Fulfilled (Some response)"
    and "status response = 200" and "type response \<noteq> Error"
    and "''*'' \<notin> set (vary_fields response)"
  shows "outcome (handle location net s request) = RespondWith (Fulfilled (Some response))
         \<and> caches_match (caches (handle location net s request)) request = Some response
         \<and> partition_matches (caches (handle location net s request)) DYNAMIC_CACHE request
             = Some [(request, response)]"
proof -
  have "put_accepts request response"
    using assms(3,6,8) by (simp add: put_accepts_def)
  then show ?thesis
    using assms
    by (simp add: handle_def partition_matches_put_dynamic caches_match_put_dynamic_miss)
qed

theorem handle_cache_miss_stores_witness:
  "outcome (handle app_scope (net_serving new_page) [(STATIC_CACHE, [])] data_request)
     = RespondWith (Fulfilled (Some new_page))
   \<and> caches_match (caches (handle app_scope (net_serving new_page) [(STATIC_CACHE, [])]
        data_request)) data_request = Some new_page
   \<and> partition_matches (caches (handle app_scope (net_serving new_page) [(STATIC_CACHE, [])]
        data_request)) DYNAMIC_CACHE data_request = Some [(data_request, new_page)]"
proof -
  have get: "method data_request = ''GET''"
    by (simp add: data_request_def get_request_def)
  from handle_cache_miss_stores [of data_request app_scope "[(STATIC_CACHE, [])]"
      "net_serving new_page" new_page]
  show ?thesis
    using get data_not_bypassed same_origin(2) vary_new_page
    by (simp add: lookup_empty_static net_serving_serves status_pages del: caches_match.simps)
qed

text \<open>
  C5 as stated, for every same-origin \<^verbatim>\<open>GET\<close> request and every cacheable status,
  fails twice over. A same-origin request with \<^verbatim>\<open>script.google.com\<close> in its query
  string is bypassed, and its response of status 200 is not retrievable afterwards. And
  a response of status 200 whose \<^verbatim>\<open>Vary\<close> header lists \<^verbatim>\<open>*\<close> is returned to
  the caller but rejected by \<^verbatim>\<open>cache.put\<close>, so it is not retrievable either.
\<close>

theorem handle_cache_miss_stores_counterexample:
  "origin (url redirect_request) = location_origin app_scope
   \<and> method redirect_request = ''GET''
   \<and> caches_match [(STATIC_CACHE, [])] redirect_request = None
   \<and> net_serving new_page redirect_request = Fulfilled (Some new_page)
   \<and> status new_page = 200 \<and> type new_page \<noteq> Error
   \<and> caches_match (caches (handle app_scope (net_serving new_page) [(STATIC_CACHE, [])]
        redirect_request)) redirect_request = None
   \<and> origin (url data_request) = location_origin app_scope
   \<and> method data_request = ''GET''
   \<and> \<not> includes_str (href (url data_request)) ''script.google.com''
   \<and> caches_match [(STATIC_CACHE, [])] data_request = None
   \<and> net_serving vary_star_page data_request = Fulfilled (Some vary_star_page)
   \<and> status vary_star_page = 200 \<and> type vary_star_page \<noteq> Error
   \<and> outcome (handle app_scope (net_serving vary_star_page) [(STATIC_CACHE, [])] data_request)
       = RespondWith (Fulfilled (Some vary_star_page))
   \<and> caches_match (caches (handle app_scope (net_serving vary_star_page) [(STATIC_CACHE, [])]
        data_request)) data_request = None"
proof -
  have get: "method redirect_request = ''GET''" "method data_request = ''GET''"
    by (simp_all add: redirect_request_def data_request_def get_request_def)
  have bypassed: "caches (handle app_scope (net_serving new_page) [(STATIC_CACHE, [])]
        redirect_request) = [(STATIC_CACHE, [])]"
    using redirect_bypassed by (simp add: handle_def)
  have refused: "handle app_scope (net_serving vary_star_page) [(STATIC_CACHE, [])] data_request
      = \<lparr>outcome = RespondWith (Fulfilled (Some vary_star_page)),
         caches = caches_open [(STATIC_CACHE, [])] DYNAMIC_CACHE,
         effects = [CachesMatch data_request, Fetch data_request, CachesOpen DYNAMIC_CACHE,
                    CachePut DYNAMIC_CACHE data_request vary_star_page]\<rparr>"
    using data_not_bypassed same_origin(2)
    by (simp add: handle_def lookup_empty_static net_serving_serves status_pages
          put_dynamic_rejected [OF vary_star_rejected] del: caches_match.simps)
  show ?thesis
    unfolding bypassed refused
    using get same_origin data_not_bypassed
    by (simp add: lookup_empty_static net_serving_serves status_pages caches_match_open
          del: caches_match.simps)
qed

text \<open>
  C6. For every cache-miss fetch fulfilled with a response that is not cacheable (a
  status other than 200, or the type \<^verbatim>\<open>error\<close>), the handler responds with that
  response as it is, makes no call on Cache Storage beyond the lookup and leaves Cache
  Storage unchanged. And no run of the handler stores a failure response: every
  \<^verbatim>\<open>cache.put\<close> it issues carries the response of its fetch, with status 200, and
  every response stored afterwards was stored before or is that response.
\<close>

theorem handle_never_caches_failure:
  "((\<not> includes_str (href (url request)) ''script.google.com''
      \<and> (origin (url request) = location_origin location
           \<or> includes_str (href (url request)) ''fonts.googleapis.com'')
      \<and> caches_match s request = None
      \<and> net request = Fulfilled (Some response)
      \<and> (status response \<noteq> 200 \<or> type response = Error)) \<longrightarrow>
     handle location net s request
       = \<lparr>outcome = RespondWith (Fulfilled (Some response)),
          caches = s,
          effects = [CachesMatch request, Fetch request]\<rparr>)
   \<and> (\<forall>n q r. CachePut n q r \<in> set (effects (handle location net s request)) \<longrightarrow>
         net request = Fulfilled (Some r) \<and> status r = 200)
   \<and> stored (caches (handle location net s request))
       \<subseteq> stored s \<union> {r. net request = Fulfilled (Some r) \<and> status r = 200}"
proof (intro conjI impI allI)
  assume "\<not> includes_str (href (url request)) ''script.google.com''
      \<and> (origin (url request) = location_origin location
           \<or> includes_str (href (url request)) ''fonts.googleapis.com'')
      \<and> caches_match s request = None
      \<and> net request = Fulfilled (Some response)
      \<and> (status response \<noteq> 200 \<or> type response = Error)"
  then show "handle location net s request
       = \<lparr>outcome = RespondWith (Fulfilled (Some response)),
          caches = s,
          effects = [CachesMatch request, Fetch request]\<rparr>"
    by (auto simp: handle_def)
next
  fix n q r
  assume "CachePut n q r \<in> set (effects (handle location net s request))"
  then show "net request = Fulfilled (Some r)" and "status r = 200"
    using handle_puts by blast+
next
  show "stored (caches (handle location net s request))
       \<subseteq> stored s \<union> {r. net request = Fulfilled (Some r) \<and> status r = 200}"
    by (rule handle_stored)
qed

theorem handle_never_caches_failure_witness:
  "handle app_scope (net_serving server_error) [(STATIC_CACHE, [])] data_request
     = \<lparr>outcome = RespondWith (Fulfilled (Some server_error)),
        caches = [(STATIC_CACHE, [])],
        effects = [CachesMatch data_request, Fetch data_request]\<rparr>
   \<and> stored (caches (handle app_scope (net_serving server_error) [(STATIC_CACHE, [])]
        data_request)) = {}"
  using handle_never_caches_failure [of data_request app_scope "[(STATIC_CACHE, [])]"
      "net_serving server_error" server_error]
    data_not_bypassed same_origin(2)
  by (simp add: lookup_empty_static net_serving_serves status_pages del: caches_match.simps)
     (simp add: stored_def)

subsection \<open>The timetable\<close>

text \<open>
  C7. For every instant (day, hour, minute) the scheduler follows the four rules in
  priority order and yields at most one message: day 0 at 12:00 yields the weekly
  message; any other day at 8:00 yields the morning message; any other day at minute
  30 with hour 8 or hour from 9 to 21 yields the hourly message; every other instant
  yields no message. In particular day 1 at 14:30 is hourly, day 1 at 22:30 and day 0
  at 8:00 yield nothing. The three messages are pairwise different texts.
\<close>

theorem checkScheduledMessages_timetable:
  "(day = 0 \<and> hours = 12 \<and> minutes = 0 \<longrightarrow>
      checkScheduledMessages day hours minutes = Some weekly_message)
   \<and> (day \<noteq> 0 \<and> hours = 8 \<and> minutes = 0 \<longrightarrow>
      checkScheduledMessages day hours minutes = Some morning_message)
   \<and> (day \<noteq> 0 \<and> minutes = 30 \<and> (hours = 8 \<or> (9 \<le> hours \<and> hours \<le> 21)) \<longrightarrow>
      checkScheduledMessages day hours minutes = Some hourly_message)
   \<and> (\<not> (day = 0 \<and> hours = 12 \<and> minutes = 0)
      \<and> \<not> (day \<noteq> 0 \<and> hours = 8 \<and> minutes = 0)
      \<and> \<not> (day \<noteq> 0 \<and> minutes = 30 \<and> (hours = 8 \<or> (9 \<le> hours \<and> hours \<le> 21))) \<longrightarrow>
      checkScheduledMessages day hours minutes = None)
   \<and> checkScheduledMessages 0 12 0 = Some weekly_message
   \<and> checkScheduledMessages 1 8 0 = Some morning_message
   \<and> checkScheduledMessages 1 14 30 = Some hourly_message
   \<and> checkScheduledMessages 1 22 30 = None
   \<and> checkScheduledMessages 0 8 0 = None
   \<and> weekly_message \<noteq> morning_message
   \<and> weekly_message \<noteq> hourly_message
   \<and> morning_message \<noteq> hourly_message"
  by (simp add: checkScheduledMessages_def schedule_vars_def
        weekly_message_def morning_message_def hourly_message_def)

theorem checkScheduledMessages_timetable_witness:
  "checkScheduledMessages 3 9 30 = Some hourly_message
   \<and> checkScheduledMessages 6 8 0 = Some morning_message
   \<and> checkScheduledMessages 0 12 0 = Some weekly_message
   \<and> checkScheduledMessages 0 9 30 = None
   \<and> checkScheduledMessages 2 21 31 = None"
  using checkScheduledMessages_timetable [of 3 9 30]
    checkScheduledMessages_timetable [of 6 8 0]
    checkScheduledMessages_timetable [of 0 12 0]
    checkScheduledMessages_timetable [of 0 9 30]
    checkScheduledMessages_timetable [of 2 21 31]
  by simp

subsection \<open>Activation\<close>

text \<open>
  C8. After the version in the cache names has changed, activation deletes every cache
  left by another version: what remains is Cache Storage without the caches whose name
  starts with \<^verbatim>\<open>sweta-\<close> and is neither the current static nor the current
  dynamic name. So among the names that start with \<^verbatim>\<open>sweta-\<close> only the two
  current ones remain, every cache of another name remains, and the two current caches
  keep their contents.
\<close>

theorem activate_keeps_current:
  "activate s
     = filter (\<lambda>(n, c). \<not> startsWith n ''sweta-'' \<or> n = STATIC_CACHE \<or> n = DYNAMIC_CACHE) s
   \<and> (\<forall>n. n \<in> set (caches_keys (activate s)) \<longleftrightarrow>
         n \<in> set (caches_keys s)
         \<and> (prefix ''sweta-'' n \<longrightarrow> n = STATIC_CACHE \<or> n = DYNAMIC_CACHE))
   \<and> map_of (activate s) STATIC_CACHE = map_of s STATIC_CACHE
   \<and> map_of (activate s) DYNAMIC_CACHE = map_of s DYNAMIC_CACHE"
proof -
  have eq: "activate s
     = filter (\<lambda>(n, c). \<not> startsWith n ''sweta-'' \<or> n = STATIC_CACHE \<or> n = DYNAMIC_CACHE) s"
    unfolding activate_eq by (rule filter_cong) (auto simp: is_old_cache_def)
  have keys: "n \<in> set (caches_keys (activate s)) \<longleftrightarrow>
         n \<in> set (caches_keys s)
         \<and> (prefix ''sweta-'' n \<longrightarrow> n = STATIC_CACHE \<or> n = DYNAMIC_CACHE)" for n
    unfolding eq caches_keys_def startsWith_prefix by force
  have "map_of (activate s) STATIC_CACHE = map_of s STATIC_CACHE"
    and "map_of (activate s) DYNAMIC_CACHE = map_of s DYNAMIC_CACHE"
    unfolding eq by (simp_all add: map_of_filter_names)
  with eq keys show ?thesis by blast
qed

theorem activate_keeps_current_witness:
  "caches_keys upgraded_storage
     = [''sweta-static-v0.9.0'', ''sweta-dynamic-v0.9.0'', ''workbox-precache'',
        STATIC_CACHE, DYNAMIC_CACHE]
   \<and> caches_keys (activate upgraded_storage)
     = [''workbox-precache'', STATIC_CACHE, DYNAMIC_CACHE]"
  using activate_keeps_current [of upgraded_storage]
  by (simp add: caches_keys_def upgraded_storage_def STATIC_CACHE_def DYNAMIC_CACHE_def)

subsection \<open>Two calls in succession\<close>

text \<open>
  C9, as amended. For every request that reaches the cache lookup and has an entry,
  the first call responds with that entry, and so does a second call made while the
  refresh of the first has written nothing yet, whatever the network does on the second
  call. Once the refresh of the first call has settled, the second call responds with
  the same entry, again whatever the network does on the second call, exactly when the
  refresh has not put a different response in front of it: that is, unless the fetch of
  the first call brought a different response of status 200 that \<^verbatim>\<open>cache.put\<close>
  accepts (no \<^verbatim>\<open>*\<close> in its \<^verbatim>\<open>Vary\<close> header) and no cache searched before the
  dynamic cache holds a match for the request.
\<close>

theorem handle_twice:
  assumes "\<not> includes_str (href (url request)) ''script.google.com''"
    and "origin (url request) = location_origin location
         \<or> includes_str (href (url request)) ''fonts.googleapis.com''"
    and "caches_match s request = Some cachedResponse"
  shows "outcome (handle location net1 s request)
           = RespondWith (Fulfilled (Some cachedResponse))
         \<and> outcome (handle location net2 s request)
           = RespondWith (Fulfilled (Some cachedResponse))
         \<and> (outcome (handle location net2 (caches (handle location net1 s request)) request)
              = RespondWith (Fulfilled (Some cachedResponse))
            \<longleftrightarrow>
              (\<forall>response. net1 request = Fulfilled (Some response) \<and> status response = 200
                  \<and> ''*'' \<notin> set (vary_fields response) \<longrightarrow> response = cachedResponse)
              \<or> caches_match (caches_before s DYNAMIC_CACHE) request \<noteq> None)"
proof -
  let ?s' = "caches (handle location net1 s request)"
  have first: "handle location net1 s request
         = \<lparr>outcome = RespondWith (Fulfilled (Some cachedResponse)),
            caches = fst (fetchAndUpdate net1 s request),
            effects = CachesMatch request # snd (fetchAndUpdate net1 s request)\<rparr>"
    using assms by (rule handle_hit)
  have early: "handle location net2 s request
         = \<lparr>outcome = RespondWith (Fulfilled (Some cachedResponse)),
            caches = fst (fetchAndUpdate net2 s request),
            effects = CachesMatch request # snd (fetchAndUpdate net2 s request)\<rparr>"
    using assms by (rule handle_hit)
  define found where "found =
     (case net1 request of
        Fulfilled (Some r) \<Rightarrow>
          if status r = 200 \<and> ''*'' \<notin> set (vary_fields r)
             \<and> caches_match (caches_before s DYNAMIC_CACHE) request = None
          then r else cachedResponse
      | _ \<Rightarrow> cachedResponse)"
  have "caches_match ?s' request = Some found"
    unfolding first found_def
    using lookup_after_refresh [OF assms(3), of net1]
    by (simp split: promise.splits option.splits)
  then have "handle location net2 ?s' request
         = \<lparr>outcome = RespondWith (Fulfilled (Some found)),
            caches = fst (fetchAndUpdate net2 ?s' request),
            effects = CachesMatch request # snd (fetchAndUpdate net2 ?s' request)\<rparr>"
    using assms(1,2) handle_hit by blast
  then have second: "outcome (handle location net2 ?s' request)
      = RespondWith (Fulfilled (Some cachedResponse)) \<longleftrightarrow> found = cachedResponse"
    by simp
  have "found = cachedResponse \<longleftrightarrow>
      (\<forall>response. net1 request = Fulfilled (Some response) \<and> status response = 200
          \<and> ''*'' \<notin> set (vary_fields response) \<longrightarrow> response = cachedResponse)
      \<or> caches_match (caches_before s DYNAMIC_CACHE) request \<noteq> None"
    unfolding found_def by (auto split: promise.splits option.splits)
  with first early second show ?thesis by simp
qed

text \<open>
  The entry is in the static cache, which is searched first: both calls return it,
  although the refresh of the first call has stored a new page in the dynamic cache.
  And with the entry in the dynamic cache and the network down on the first call, both
  calls return it too.
\<close>

theorem handle_twice_witness:
  "outcome (handle app_scope (net_serving new_page) (precached page_request old_page)
      page_request)
     = RespondWith (Fulfilled (Some old_page))
   \<and> partition_matches (caches (handle app_scope (net_serving new_page)
        (precached page_request old_page) page_request)) DYNAMIC_CACHE page_request
     = Some [(page_request, new_page)]
   \<and> outcome (handle app_scope net_down
        (caches (handle app_scope (net_serving new_page) (precached page_request old_page)
           page_request)) page_request)
     = RespondWith (Fulfilled (Some old_page))
   \<and> outcome (handle app_scope (net_serving new_page)
        (caches (handle app_scope net_down
           (storage_with DYNAMIC_CACHE page_request old_page) page_request)) page_request)
     = RespondWith (Fulfilled (Some old_page))"
proof -
  have stored_new: "partition_matches (caches (handle app_scope (net_serving new_page)
        (precached page_request old_page) page_request)) DYNAMIC_CACHE page_request
     = Some [(page_request, new_page)]"
    using page_not_bypassed same_origin(1) put_accepts_page
    by (simp add: handle_def lookup_precached fetchAndUpdate_def net_serving_serves status_pages
          partition_matches_put_dynamic)
  from handle_twice [of page_request app_scope "precached page_request old_page" old_page
      "net_serving new_page" net_down]
    handle_twice [of page_request app_scope "storage_with DYNAMIC_CACHE page_request old_page"
      old_page net_down "net_serving new_page"]
  show ?thesis
    using stored_new page_not_bypassed same_origin(1)
    by (simp add: lookup_precached lookup_before_precached lookup_page net_down_def)
qed

text \<open>
  C9 as stated fails: the cached entry is in the dynamic cache, the network answers the
  refresh of the first call with a new response of status 200, and the second call,
  made with the network down, responds with the new response, not with the one the
  first call returned.
\<close>

theorem handle_twice_counterexample:
  "caches_match (storage_with DYNAMIC_CACHE page_request old_page) page_request = Some old_page
   \<and> outcome (handle app_scope (net_serving new_page)
        (storage_with DYNAMIC_CACHE page_request old_page) page_request)
       = RespondWith (Fulfilled (Some old_page))
   \<and> outcome (handle app_scope net_down
        (caches (handle app_scope (net_serving new_page)
           (storage_with DYNAMIC_CACHE page_request old_page) page_request)) page_request)
       = RespondWith (Fulfilled (Some new_page))
   \<and> old_page \<noteq> new_page"
proof -
  let ?s = "storage_with DYNAMIC_CACHE page_request old_page"
  have first: "handle app_scope (net_serving new_page) ?s page_request
         = \<lparr>outcome = RespondWith (Fulfilled (Some old_page)),
            caches = put_dynamic ?s page_request new_page,
            effects = [CachesMatch page_request, Fetch page_request,
                       CachesOpen DYNAMIC_CACHE,
                       CachePut DYNAMIC_CACHE page_request new_page]\<rparr>"
    using page_not_bypassed same_origin(1)
    by (simp add: handle_def lookup_page fetchAndUpdate_def net_serving_serves status_pages)
  have "caches_match (caches_before ?s DYNAMIC_CACHE) page_request = None"
    by (simp add: caches_before_def storage_with_def STATIC_CACHE_def DYNAMIC_CACHE_def
          cache_match_def query_cache_def)
  then have after: "caches_match (put_dynamic ?s page_request new_page) page_request
      = Some new_page"
    using caches_match_put_dynamic [OF put_accepts_page, of ?s] by simp
  have "outcome (handle app_scope net_down (put_dynamic ?s page_request new_page) page_request)
      = RespondWith (Fulfilled (Some new_page))"
    using handle_hit [OF page_not_bypassed disjI1 [OF same_origin(1)] after] by simp
  with first show ?thesis
    by (simp add: lookup_page pages_differ)
qed

subsection \<open>The bypass test is a substring test\<close>

text \<open>
  C10. Every request whose URL contains \<^verbatim>\<open>script.google.com\<close> at any position,
  whatever stands before and after it and whatever the origin, is forwarded to the
  network with no caching: the promise of the fetch is handed to \<^verbatim>\<open>respondWith\<close>,
  the fetch is the only call made, and Cache Storage is unchanged. This holds for a
  same-origin URL that carries the text in its query string.
\<close>

theorem handle_bypass_substring:
  assumes "href (url request) = pre @ ''script.google.com'' @ post"
  shows "outcome (handle location net s request) = RespondWith (net request)
         \<and> caches (handle location net s request) = s
         \<and> effects (handle location net s request) = [Fetch request]"
proof -
  have "includes_str (href (url request)) ''script.google.com''"
    using assms includes_str_iff by blast
  then show ?thesis by (simp add: handle_def)
qed

theorem handle_bypass_substring_witness:
  "origin (url redirect_request) = location_origin app_scope
   \<and> outcome (handle app_scope (net_serving new_page) [] redirect_request)
       = RespondWith (Fulfilled (Some new_page))
   \<and> caches (handle app_scope (net_serving new_page) [] redirect_request) = []
   \<and> effects (handle app_scope (net_serving new_page) [] redirect_request)
       = [Fetch redirect_request]"
  using handle_bypass_substring [of redirect_request
      "''https://cortinarius-i.github.io/SWETA/?next=''" "[]" app_scope "net_serving new_page" "[]"]
    same_origin(3)
  by (simp add: net_serving_serves) (simp add: redirect_request_def get_request_def)

end
